theory Spec2Isabelle
  imports Main
begin

section \<open>Data model of virtualtreemodel.cpp\<close>

text \<open>
  Items are the opaque \<^verbatim>\<open>void *\<close> handles of the external source. They are modelled as
  natural numbers (addresses); the null pointer is the address 0.
\<close>

type_synonym item = nat

definition nullptr :: item where
  "nullptr = 0"

text \<open>
  \<^verbatim>\<open>class InternalNode\<close> (lines 36-98). The owning vector of children makes the shadow tree
  a recursive datatype. The non-owning back pointer \<^verbatim>\<open>parent\<close> is not a field of the model:
  a node's parent is the node that holds it in its \<open>children\<close>. \<^verbatim>\<open>parentIndex\<close> is a
  \<^verbatim>\<open>size_t\<close> and is modelled as a natural number.
\<close>

datatype node = Node
  (item: item)
  (parentIndex: nat)
  (children: "node list")
  (hasChildrenQueryed: bool)
  (hasChildren: bool)
  (childInitialized: bool)

text \<open>The constructor \<^verbatim>\<open>InternalNode(parent, obj, index)\<close> (line 39) with the default flags.\<close>

definition InternalNode :: "item \<Rightarrow> nat \<Rightarrow> node" where
  "InternalNode obj index = Node obj index [] False False False"

text \<open>Assignments to single fields of a node.\<close>

definition set_parentIndex :: "nat \<Rightarrow> node \<Rightarrow> node" where
  "set_parentIndex k n =
     Node (item n) k (children n) (hasChildrenQueryed n) (hasChildren n) (childInitialized n)"

definition set_children :: "node list \<Rightarrow> node \<Rightarrow> node" where
  "set_children cs n =
     Node (item n) (parentIndex n) cs (hasChildrenQueryed n) (hasChildren n) (childInitialized n)"

definition set_childInitialized :: "bool \<Rightarrow> node \<Rightarrow> node" where
  "set_childInitialized b n =
     Node (item n) (parentIndex n) (children n) (hasChildrenQueryed n) (hasChildren n) b"

definition set_hasChildrenQueryed :: "bool \<Rightarrow> node \<Rightarrow> node" where
  "set_hasChildrenQueryed b n =
     Node (item n) (parentIndex n) (children n) b (hasChildren n) (childInitialized n)"

definition set_hasChildren :: "bool \<Rightarrow> node \<Rightarrow> node" where
  "set_hasChildren b n =
     Node (item n) (parentIndex n) (children n) (hasChildrenQueryed n) b (childInitialized n)"

text \<open>
  A pointer to a node of the shadow tree is modelled by the node's place in the tree: the
  list of child positions leading to it from the root. The root is the empty list; the
  null node pointer is \<open>None\<close> of \<open>node_ptr option\<close>.
\<close>

type_synonym node_ptr = "nat list"

fun node_at :: "node \<Rightarrow> node_ptr \<Rightarrow> node option" where
  "node_at n [] = Some n"
| "node_at n (i # p) =
     (if i < length (children n) then node_at (children n ! i) p else None)"

fun update_at :: "(node \<Rightarrow> node) \<Rightarrow> node_ptr \<Rightarrow> node \<Rightarrow> node" where
  "update_at f [] n = f n"
| "update_at f (i # p) n =
     (if i < length (children n)
      then set_children ((children n)[i := update_at f p (children n ! i)]) n
      else n)"

text \<open>
  \<^verbatim>\<open>QModelIndex\<close>: either the invalid index or row, column and internal pointer, as
  \<^verbatim>\<open>createIndex\<close> builds it.
\<close>

datatype qindex = InvalidIndex | ModelIndex (row: nat) (column: int) (internalPointer: node_ptr)

fun isValid :: "qindex \<Rightarrow> bool" where
  "isValid InvalidIndex = False"
| "isValid (ModelIndex r c p) = True"

text \<open>
  \<^verbatim>\<open>QVariant\<close>: \<open>None\<close> is the default-constructed (invalid) variant, \<open>Some v\<close> a payload.
\<close>

type_synonym qvariant = "string option"

text \<open>
  \<^verbatim>\<open>VirtualModelAdapter\<close> is an abstract interface declared in virtualtreemodel.h; the model
  takes its member functions as a record of functions, so every theorem that quantifies over
  the adapter holds for every implementation. \<^verbatim>\<open>indexOf\<close> takes the start position as
  third argument.
\<close>

record adapter =
  getItemsCount :: "item \<Rightarrow> int"
  hasItems :: "item \<Rightarrow> bool"
  getItem :: "item \<Rightarrow> int \<Rightarrow> item"
  indexOf :: "item \<Rightarrow> item \<Rightarrow> int \<Rightarrow> int"
  getItemParent :: "item \<Rightarrow> item"
  data :: "item \<Rightarrow> int \<Rightarrow> qvariant"

text \<open>Undefined behaviour of the C++ code is an explicit fault of the model.\<close>

datatype fault = NullDereference | OutOfRange | DanglingPointer

text \<open>
  The row signals of \<^verbatim>\<open>QAbstractItemModel\<close> raised by the bracketing calls
  \<^verbatim>\<open>beginRemoveRows/endRemoveRows\<close> and \<^verbatim>\<open>beginInsertRows/endInsertRows\<close>: parent index,
  first row, last row.
\<close>

datatype row_event = RowsRemoved qindex nat nat | RowsInserted qindex nat nat

section \<open>InternalNode member functions\<close>

text \<open>\<^verbatim>\<open>InternalNode::isInitialized\<close> (lines 48-63): the result and the node afterwards.\<close>

definition isInitialized :: "adapter \<Rightarrow> node \<Rightarrow> bool \<times> node" where
  "isInitialized a n =
     (if \<not> childInitialized n then
        (let n' = (if hasChildrenQueryed n
                   then (if hasChildren n \<noteq> (getItemsCount a (item n) > 0)
                         then set_childInitialized True n else n)
                   else n)
         in (childInitialized n', n'))
      else (True, n))"

text \<open>\<^verbatim>\<open>InternalNode::loadChildren\<close> (lines 65-77).\<close>

definition loadChildren :: "adapter \<Rightarrow> node \<Rightarrow> node" where
  "loadChildren a n =
     (if \<not> childInitialized n then
        set_childInitialized True
          (if hasItems a (item n)
           then set_children
                  (children n @
                   map (\<lambda>k. InternalNode (getItem a (item n) (int k)) k)
                     [0 ..< nat (getItemsCount a (item n))]) n
           else n)
      else n)"

text \<open>\<^verbatim>\<open>InternalNode::childCount\<close> (lines 79-83).\<close>

definition childCount :: "adapter \<Rightarrow> node \<Rightarrow> int \<times> node" where
  "childCount a n = (let n' = loadChildren a n in (int (length (children n')), n'))"

text \<open>
  The renumbering done by \<^verbatim>\<open>eraseChildren\<close> and \<^verbatim>\<open>insertedChildren\<close>: the nodes of a
  range get consecutive values of \<^verbatim>\<open>parentIndex\<close>, counting from \<open>k\<close>.
\<close>

fun renumber :: "nat \<Rightarrow> node list \<Rightarrow> node list" where
  "renumber k [] = []"
| "renumber k (n # ns) = set_parentIndex k n # renumber (Suc k) ns"

text \<open>
  \<^verbatim>\<open>InternalNode::eraseChildren\<close> (lines 85-91) on the children vector, the iterators given
  as positions \<open>b\<close> and \<open>e\<close>. The caller passes \<open>b < e \<le> length ns\<close>.
\<close>

definition eraseChildren :: "node list \<Rightarrow> nat \<Rightarrow> nat \<Rightarrow> node list" where
  "eraseChildren ns b e =
     (let curParent = parentIndex (ns ! b)
      in take b ns @ renumber curParent (drop e ns))"

text \<open>\<^verbatim>\<open>InternalNode::insertedChildren\<close> (lines 93-97).\<close>

definition insertedChildren :: "node list \<Rightarrow> nat \<Rightarrow> node list" where
  "insertedChildren ns lastIndex = take lastIndex ns @ renumber lastIndex (drop lastIndex ns)"

section \<open>VirtualTreeModel::syncNodeList\<close>

text \<open>
  \<^verbatim>\<open>VirtualTreeModel::getIndex\<close> (lines 257-263); the root is the node at the empty path.
  \<^verbatim>\<open>syncNodeList\<close> calls it without a column; the default of the parameter is declared in
  virtualtreemodel.h and is taken to be column 0.
\<close>

definition getIndex :: "node_ptr \<Rightarrow> node \<Rightarrow> int \<Rightarrow> qindex" where
  "getIndex p n col = (if p = [] then InvalidIndex else ModelIndex (parentIndex n) col p)"

text \<open>
  The local variables of the loop of \<^verbatim>\<open>syncNodeList\<close> (lines 111-114) together with the
  children vector it works on and the row signals raised so far. \<^verbatim>\<open>srcStart\<close> and
  \<^verbatim>\<open>srcCur\<close> are C++ \<^verbatim>\<open>int\<close>s that never get negative; they are natural numbers here.
\<close>

record sync_state =
  nodes :: "node list"
  srcStart :: nat
  srcCur :: nat
  destStart :: int
  emitted :: "row_event list"

text \<open>
  Lines 128-137: remove the skipped source nodes, and set \<^verbatim>\<open>srcStart\<close>. When the loop is
  finishing, \<^verbatim>\<open>srcCur\<close> keeps its value.
\<close>

definition remove_skipped :: "qindex \<Rightarrow> bool \<Rightarrow> sync_state \<Rightarrow> sync_state" where
  "remove_skipped index finishing st =
     (let st1 =
        (if srcCur st > srcStart st
         then st\<lparr>nodes := eraseChildren (nodes st) (srcStart st) (srcCur st),
                 srcCur := (if \<not> finishing then srcStart st else srcCur st),
                 emitted := emitted st @ [RowsRemoved index (srcStart st) (srcCur st - 1)]\<rparr>
         else st)
      in st1\<lparr>srcStart := srcCur st1 + 1\<rparr>)"

text \<open>
  The loop of lines 146-152: \<open>count\<close> new nodes are emplaced one by one at the positions
  \<open>cur, cur + 1, ...\<close>, for the live items from position \<open>dst\<close> on.
\<close>

definition emplace_new :: "adapter \<Rightarrow> item \<Rightarrow> int \<Rightarrow> nat \<Rightarrow> nat \<Rightarrow> node list \<Rightarrow> node list" where
  "emplace_new a parent dst cur count ns =
     fold (\<lambda>i ns'. take (cur + i) ns' @
                    InternalNode (getItem a parent (dst + int i)) (cur + i) # drop (cur + i) ns')
       [0 ..< count] ns"

text \<open>
  Lines 139-159: insert the skipped live items and move \<^verbatim>\<open>destStart\<close> behind the match.
  \<^verbatim>\<open>nodes.emplace(nodes.begin() + cur, ...)\<close> with \<open>cur\<close> beyond the end of the vector is
  undefined behaviour; every emplace makes the vector and \<open>cur\<close> grow by one, so this is
  decided at the first one.
\<close>

definition insert_skipped ::
  "adapter \<Rightarrow> qindex \<Rightarrow> item \<Rightarrow> bool \<Rightarrow> int \<Rightarrow> sync_state \<Rightarrow> fault + sync_state" where
  "insert_skipped a index parent finishing destCur0 st =
     (let destCur = (if finishing then getItemsCount a parent else destCur0)
      in if destCur > destStart st then
           (let insertCount = nat (destCur - destStart st)
            in if srcCur st > length (nodes st) then Inl OutOfRange
               else Inr (st\<lparr>nodes := insertedChildren
                                       (emplace_new a parent (destStart st) (srcCur st)
                                          insertCount (nodes st))
                                       (srcCur st + insertCount),
                             srcCur := srcCur st + insertCount,
                             destStart := destCur + 1,
                             emitted := emitted st @
                               [RowsInserted index (srcCur st) (srcCur st + insertCount - 1)]\<rparr>))
         else Inr (st\<lparr>destStart := destCur + 1\<rparr>))"

text \<open>Weight of a subtree, for the termination of the reconciliation.\<close>

fun weight :: "node \<Rightarrow> nat" where
  "weight (Node it ix cs q h ci) = Suc (sum_list (map weight cs))"

text \<open>
  \<^verbatim>\<open>VirtualTreeModel::syncNodeList\<close> (lines 109-170) and its \<^verbatim>\<open>while\<close> loop
  (lines 117-168). \<open>p\<close> is the address of \<open>node\<close>, from which \<^verbatim>\<open>getIndex(node)\<close> is
  computed once, before the loop. The function returns the row signals in the order they are
  raised, and the node afterwards. \<^verbatim>\<open>curNode\<close> is a pointer to the node that stood at
  \<^verbatim>\<open>srcCur\<close> when the iteration began; after the removal and the insertion of the
  iteration it stands at the new \<^verbatim>\<open>srcCur\<close> (lemma \<open>sync_step_cursor\<close>), where the
  model reads it.
\<close>

function syncNodeList :: "adapter \<Rightarrow> node_ptr \<Rightarrow> node \<Rightarrow> item \<Rightarrow> fault + (row_event list \<times> node)"
  and sync_loop :: "adapter \<Rightarrow> qindex \<Rightarrow> node_ptr \<Rightarrow> item \<Rightarrow> sync_state \<Rightarrow> fault + sync_state"
where
  "syncNodeList a p node parent =
     (case sync_loop a (getIndex p node 0) p parent
             \<lparr>nodes = children node, srcStart = 0, srcCur = 0, destStart = 0, emitted = []\<rparr> of
        Inl e \<Rightarrow> Inl e
      | Inr st \<Rightarrow> Inr (emitted st, set_childInitialized True (set_children (nodes st) node)))"
| "sync_loop a index p parent st =
     (if srcCur st \<le> length (nodes st) then
        (let finishing = (srcCur st \<ge> length (nodes st));
             destCur = (if \<not> finishing
                        then indexOf a parent (item (nodes st ! srcCur st)) (destStart st)
                        else 0)
         in if destCur \<ge> 0 then
              (case insert_skipped a index parent finishing destCur
                      (remove_skipped index finishing st) of
                 Inl e \<Rightarrow> Inl e
               | Inr st1 \<Rightarrow>
                   if finishing then sync_loop a index p parent (st1\<lparr>srcCur := srcCur st1 + 1\<rparr>)
                   else
                     (case isInitialized a (nodes st1 ! srcCur st1) of
                        (True, curNode) \<Rightarrow>
                          (case syncNodeList a (p @ [srcCur st1]) curNode (item curNode) of
                             Inl e \<Rightarrow> Inl e
                           | Inr (evs, curNode') \<Rightarrow>
                               sync_loop a index p parent
                                 (st1\<lparr>nodes := (nodes st1)[srcCur st1 := curNode'],
                                       srcStart := srcCur st1 + 1,
                                       srcCur := srcCur st1 + 1,
                                       emitted := emitted st1 @ evs\<rparr>))
                      | (False, curNode) \<Rightarrow>
                          sync_loop a index p parent
                            (st1\<lparr>nodes := (nodes st1)[srcCur st1 := curNode],
                                  srcCur := srcCur st1 + 1\<rparr>)))
            else sync_loop a index p parent (st\<lparr>srcCur := srcCur st + 1\<rparr>))
      else Inr st)"
  by pat_completeness auto

text \<open>Termination: facts on the weights of the nodes behind \<^verbatim>\<open>srcCur\<close>.\<close>

lemma weight_set_parentIndex [simp]: "weight (set_parentIndex k n) = weight n"
  by (cases n) (simp add: set_parentIndex_def)

lemma weight_set_childInitialized [simp]: "weight (set_childInitialized b n) = weight n"
  by (cases n) (simp add: set_childInitialized_def)

lemma length_renumber [simp]: "length (renumber k ns) = length ns"
  by (induction ns arbitrary: k) simp_all

lemma map_weight_renumber [simp]: "map weight (renumber k ns) = map weight ns"
  by (induction ns arbitrary: k) simp_all

lemma emplace_new_eq:
  "cur \<le> length ns \<Longrightarrow>
   emplace_new a parent dst cur count ns =
     take cur ns @ map (\<lambda>i. InternalNode (getItem a parent (dst + int i)) (cur + i)) [0 ..< count]
       @ drop cur ns"
proof (induction count)
  case 0
  then show ?case by (simp add: emplace_new_def)
next
  case (Suc count)
  let ?new = "map (\<lambda>i. InternalNode (getItem a parent (dst + int i)) (cur + i)) [0 ..< count]"
  have len: "length (take cur ns @ ?new) = cur + count"
    using Suc.prems by simp
  have "emplace_new a parent dst cur (Suc count) ns =
        (let ns' = emplace_new a parent dst cur count ns
         in take (cur + count) ns' @
            InternalNode (getItem a parent (dst + int count)) (cur + count) # drop (cur + count) ns')"
    by (simp add: emplace_new_def Let_def)
  also have "\<dots> = (take cur ns @ ?new) @
      InternalNode (getItem a parent (dst + int count)) (cur + count) # drop cur ns"
    using Suc.IH [OF Suc.prems] len by (simp add: Let_def)
  finally show ?case by simp
qed

lemma remove_skipped_suffix:
  assumes "srcCur st \<le> length (nodes st)"
  shows "srcCur (remove_skipped index False st) \<le> length (nodes (remove_skipped index False st))"
    and "map weight (drop (srcCur (remove_skipped index False st))
                       (nodes (remove_skipped index False st))) =
         map weight (drop (srcCur st) (nodes st))"
  using assms by (auto simp add: remove_skipped_def eraseChildren_def Let_def)

lemma insert_skipped_suffix:
  assumes "srcCur st \<le> length (nodes st)"
    and "insert_skipped a index parent fin d st = Inr b"
  shows "srcCur b \<le> length (nodes b)"
    and "map weight (drop (srcCur b) (nodes b)) = map weight (drop (srcCur st) (nodes st))"
  using assms
  by (auto simp add: insert_skipped_def insertedChildren_def emplace_new_eq Let_def
      split: if_splits)

lemma sync_step_suffix:
  assumes "srcCur st \<le> length (nodes st)"
    and "insert_skipped a index parent False d (remove_skipped index False st) = Inr b"
  shows "srcCur b \<le> length (nodes b)"
    and "map weight (drop (srcCur b) (nodes b)) = map weight (drop (srcCur st) (nodes st))"
  using insert_skipped_suffix [OF remove_skipped_suffix(1) [OF assms(1)] assms(2)]
    remove_skipped_suffix(2) [OF assms(1)]
  by simp_all

lemma sync_step_finishing:
  assumes "srcCur st = length (nodes st)"
    and "insert_skipped a index parent True d (remove_skipped index True st) = Inr b"
  shows "length (nodes b) \<le> srcCur b"
  using assms
  by (auto simp add: insert_skipped_def insertedChildren_def emplace_new_eq remove_skipped_def
      eraseChildren_def Let_def split: if_splits)

lemma sync_step_measure:
  assumes "srcCur st < length (nodes st)"
    and "insert_skipped a index parent False d (remove_skipped index False st) = Inr b"
  shows "srcCur b < length (nodes b)"
    and "sum_list (map weight (drop (srcCur st) (nodes st))) =
         weight (nodes b ! srcCur b) + sum_list (map weight (drop (Suc (srcCur b)) (nodes b)))"
    and "length (nodes b) - srcCur b = length (nodes st) - srcCur st"
proof -
  have le: "srcCur st \<le> length (nodes st)"
    using assms(1) by simp
  have eq: "map weight (drop (srcCur b) (nodes b)) = map weight (drop (srcCur st) (nodes st))"
    by (rule sync_step_suffix(2) [OF le assms(2)])
  have "length (map weight (drop (srcCur b) (nodes b))) =
        length (map weight (drop (srcCur st) (nodes st)))"
    by (simp only: eq)
  then show len: "length (nodes b) - srcCur b = length (nodes st) - srcCur st"
    by simp
  show lt: "srcCur b < length (nodes b)"
    using len assms(1) by arith
  have "drop (srcCur b) (nodes b) = nodes b ! srcCur b # drop (Suc (srcCur b)) (nodes b)"
    using lt by (simp add: Cons_nth_drop_Suc)
  then have "map weight (drop (srcCur b) (nodes b)) =
             weight (nodes b ! srcCur b) # map weight (drop (Suc (srcCur b)) (nodes b))"
    by simp
  then show "sum_list (map weight (drop (srcCur st) (nodes st))) =
         weight (nodes b ! srcCur b) + sum_list (map weight (drop (Suc (srcCur b)) (nodes b)))"
    using eq by simp
qed

lemma weight_isInitialized: "weight (snd (isInitialized a n)) = weight n"
  by (simp add: isInitialized_def Let_def)

lemma weight_children: "weight n = Suc (sum_list (map weight (children n)))"
  by (cases n) simp

termination syncNodeList
proof (relation "measures [
      (\<lambda>x. case x of Inl (a, p, n, parent) \<Rightarrow> weight n
                    | Inr (a, index, p, parent, st) \<Rightarrow>
                        Suc (sum_list (map weight (drop (srcCur st) (nodes st))))),
      (\<lambda>x. case x of Inl y \<Rightarrow> 1 | Inr y \<Rightarrow> 0),
      (\<lambda>x. case x of Inl y \<Rightarrow> 0
                    | Inr (a, index, p, parent, st) \<Rightarrow> Suc (length (nodes st)) - srcCur st)]",
    goal_cases)
  case 1
  show ?case by simp
next
  case (2 a p node parent)
  show ?case by (simp add: weight_children)
next
  case (3 a index p parent st x xa b)
  then show ?case
    using sync_step_finishing [of st a index parent xa b] by auto
next
  case (4 a index p parent st x xa b xb y)
  then have "srcCur st < length (nodes st)" by simp
  from sync_step_measure [OF this] 4 weight_isInitialized [of a "nodes b ! srcCur b"]
  show ?case by (auto simp add: snd_def split: prod.splits)
next
  case (5 a index p parent st x xa b xb y ba xc ya)
  then have "srcCur st < length (nodes st)" by simp
  from sync_step_measure [OF this] 5
  show ?case by auto
next
  case (6 a index p parent st x xa b xb y)
  then have "srcCur st < length (nodes st)" by simp
  from sync_step_measure [OF this] 6
  show ?case by auto
next
  case (7 a index p parent st x xa)
  then show ?case
    by (auto simp add: Cons_nth_drop_Suc [symmetric] split: if_splits)
qed

declare syncNodeList.simps [simp del] sync_loop.simps [simp del]

section \<open>VirtualTreeModel member functions\<close>

text \<open>
  The fields of \<^verbatim>\<open>VirtualTreeModel\<close> the member functions below use. \<^verbatim>\<open>m_updating\<close> is
  declared in virtualtreemodel.h; it is taken as a mathematical integer. The adapter is an
  argument of every function, since the answers of the external source change over time.
\<close>

record model =
  m_syncing :: bool
  m_updating :: int
  m_root :: node

text \<open>
  What a caller observes of the update functions: the row signals of a reconciliation, the
  signal \<^verbatim>\<open>dataChanged(QModelIndex(), QModelIndex())\<close>, and a marker for every call of
  \<^verbatim>\<open>syncTree\<close> that records the value of \<^verbatim>\<open>m_updating\<close> at the call.
\<close>

datatype signal = SyncTreeCall int | Rows row_event | DataChanged qindex qindex

text \<open>\<^verbatim>\<open>VirtualTreeModel::syncTree\<close> (lines 326-331).\<close>

definition syncTree :: "adapter \<Rightarrow> model \<Rightarrow> fault + (signal list \<times> model)" where
  "syncTree a m =
     (case syncNodeList a [] (m_root (m\<lparr>m_syncing := True\<rparr>)) nullptr of
        Inl e \<Rightarrow> Inl e
      | Inr (evs, r) \<Rightarrow>
          Inr (SyncTreeCall (m_updating m) # map Rows evs, m\<lparr>m_syncing := False, m_root := r\<rparr>))"

text \<open>\<^verbatim>\<open>VirtualTreeModel::beginUpdate\<close> (lines 302-305).\<close>

definition beginUpdate :: "model \<Rightarrow> model" where
  "beginUpdate m = m\<lparr>m_updating := m_updating m + 1\<rparr>"

text \<open>\<^verbatim>\<open>VirtualTreeModel::endUpdate\<close> (lines 307-315).\<close>

definition endUpdate :: "adapter \<Rightarrow> model \<Rightarrow> fault + (signal list \<times> model)" where
  "endUpdate a m =
     (case (if m_updating m = 1 then syncTree a m else Inr ([], m)) of
        Inl e \<Rightarrow> Inl e
      | Inr (sigs, m1) \<Rightarrow>
          (let m2 = m1\<lparr>m_updating := m_updating m1 - 1\<rparr>
           in Inr (sigs @ (if m_updating m2 = 0 then [DataChanged InvalidIndex InvalidIndex] else []),
                   m2)))"

text \<open>A sequence of calls of \<^verbatim>\<open>beginUpdate\<close> and \<^verbatim>\<open>endUpdate\<close>, run in order.\<close>

datatype update_call = BeginUpdate | EndUpdate

fun run_calls :: "adapter \<Rightarrow> update_call list \<Rightarrow> model \<Rightarrow> fault + (signal list \<times> model)" where
  "run_calls a [] m = Inr ([], m)"
| "run_calls a (BeginUpdate # cs) m = run_calls a cs (beginUpdate m)"
| "run_calls a (EndUpdate # cs) m =
     (case endUpdate a m of
        Inl e \<Rightarrow> Inl e
      | Inr (sigs, m1) \<Rightarrow>
          (case run_calls a cs m1 of
             Inl e \<Rightarrow> Inl e
           | Inr (sigs', m2) \<Rightarrow> Inr (sigs @ sigs', m2)))"

text \<open>
  \<^verbatim>\<open>VirtualTreeModel::getNode\<close> (lines 226-232). The internal pointer of an index may point
  to a node that was removed since: \<open>None\<close>.
\<close>

definition getNode :: "model \<Rightarrow> qindex \<Rightarrow> node option" where
  "getNode m index =
     (case index of InvalidIndex \<Rightarrow> Some (m_root m)
      | ModelIndex r c p \<Rightarrow> node_at (m_root m) p)"

text \<open>\<^verbatim>\<open>VirtualTreeModel::data\<close> (lines 172-182).\<close>

definition model_data :: "adapter \<Rightarrow> model \<Rightarrow> qindex \<Rightarrow> int \<Rightarrow> fault + qvariant" where
  "model_data a m index role =
     (if \<not> isValid index then Inr None
      else if m_updating m > 0 then Inr None
      else (case getNode m index of
              None \<Rightarrow> Inl DanglingPointer
            | Some n \<Rightarrow> Inr (data a (item n) role)))"

text \<open>
  \<^verbatim>\<open>VirtualTreeModel::hasChildren\<close> (lines 270-286): the result and the model afterwards (the
  function is \<^verbatim>\<open>const\<close>, but writes the two flags of the node through a reference).
\<close>

definition model_hasChildren :: "adapter \<Rightarrow> model \<Rightarrow> qindex \<Rightarrow> fault + (bool \<times> model)" where
  "model_hasChildren a m parent =
     (if \<not> isValid parent then Inr (True, m)
      else (case getNode m parent of
              None \<Rightarrow> Inl DanglingPointer
            | Some n \<Rightarrow>
                if childInitialized n then Inr (length (children n) > 0, m)
                else (let has = hasItems a (item n)
                      in Inr (has,
                              m\<lparr>m_root := update_at
                                   (\<lambda>n. set_hasChildren has (set_hasChildrenQueryed True n))
                                   (internalPointer parent) (m_root m)\<rparr>))))"

text \<open>
  Lines 244-253 of \<^verbatim>\<open>getItemNode\<close>: the search of the item below the node the recursive
  call returned. \<^verbatim>\<open>indexOf\<close> is called with two arguments there; its third parameter has a
  default value in virtualtreemodel.h, which is taken to be the start position 0.
  \<^verbatim>\<open>parentNode->loadChildren\<close> on a null pointer and \<^verbatim>\<open>children[index]\<close> beyond the end
  of the vector are undefined behaviour.
\<close>

definition find_child ::
  "adapter \<Rightarrow> node \<Rightarrow> node_ptr option \<Rightarrow> item \<Rightarrow> item \<Rightarrow> fault + (node_ptr option \<times> node)" where
  "find_child a root parentNode parentItem it =
     (let index = indexOf a parentItem it 0
      in if index \<ge> 0 then
           (case parentNode of
              None \<Rightarrow> Inl NullDereference
            | Some p \<Rightarrow>
                (case node_at root p of
                   None \<Rightarrow> Inl DanglingPointer
                 | Some n \<Rightarrow>
                     if nat index < length (children (loadChildren a n))
                     then Inr (Some (p @ [nat index]), update_at (loadChildren a) p root)
                     else Inl OutOfRange))
         else Inr (None, root))"

text \<open>
  \<^verbatim>\<open>VirtualTreeModel::getItemNode\<close> (lines 234-255): the node pointer it returns (\<open>None\<close> is
  \<^verbatim>\<open>nullptr\<close>) and the shadow tree afterwards. The recursion follows the parent chain of the
  external source and need not end; a run that never returns has the value \<open>None\<close>.
\<close>

partial_function (option) getItemNode ::
  "adapter \<Rightarrow> node \<Rightarrow> item \<Rightarrow> (fault + (node_ptr option \<times> node)) option" where
  "getItemNode a root it =
     (if getItemParent a it = it then Some (Inr (None, root))
      else if getItemParent a it = nullptr then Some (Inr (Some [], root))
      else Option.bind (getItemNode a root (getItemParent a it))
             (\<lambda>r. case r of
                Inl e \<Rightarrow> Some (Inl e)
              | Inr (parentNode, root') \<Rightarrow>
                  Some (find_child a root' parentNode (getItemParent a it) it)))"

text \<open>\<^verbatim>\<open>VirtualTreeModel::getItemIndex\<close> (lines 293-300).\<close>

definition getItemIndex :: "adapter \<Rightarrow> node \<Rightarrow> item \<Rightarrow> (fault + (qindex \<times> node)) option" where
  "getItemIndex a root it =
     Option.bind (getItemNode a root it)
       (\<lambda>r. case r of
          Inl e \<Rightarrow> Some (Inl e)
        | Inr (None, root') \<Rightarrow> Some (Inr (InvalidIndex, root'))
        | Inr (Some p, root') \<Rightarrow>
            (case node_at root' p of
               None \<Rightarrow> Some (Inl DanglingPointer)
             | Some n \<Rightarrow> Some (Inr (getIndex p n 0, root'))))"

section \<open>The external source\<close>

text \<open>
  Modelled from the spec: the implementations of \<^verbatim>\<open>VirtualModelAdapter\<close> are not part of
  the repository. This adapter answers from a live source given by the ordered children of
  every item, as section 6 of the specification states the contracts: \<open>itemCount\<close> is the
  live child count, \<open>hasItems\<close> says whether there is a child, \<open>itemAt\<close> is the child at a
  position, \<open>indexOf\<close> is the first live position at or after the start position that holds
  the item, or -1.
\<close>

fun first_index :: "item list \<Rightarrow> item \<Rightarrow> int \<Rightarrow> int \<Rightarrow> int" where
  "first_index [] x from k = - 1"
| "first_index (y # ys) x from k =
     (if from \<le> k \<and> y = x then k else first_index ys x from (k + 1))"

definition source_adapter :: "(item \<Rightarrow> item list) \<Rightarrow> (item \<Rightarrow> item) \<Rightarrow> adapter" where
  "source_adapter live parentOf =
     \<lparr>getItemsCount = (\<lambda>p. int (length (live p))),
      hasItems = (\<lambda>p. live p \<noteq> []),
      getItem = (\<lambda>p i. if 0 \<le> i \<and> nat i < length (live p) then live p ! nat i else nullptr),
      indexOf = (\<lambda>p x from. first_index (live p) x from 0),
      getItemParent = parentOf,
      data = (\<lambda>x role. None)\<rparr>"

section \<open>Concrete sources and caches\<close>

text \<open>A source that has the given top-level items and nothing below them.\<close>

definition top_level :: "item list \<Rightarrow> item \<Rightarrow> item list" where
  "top_level xs p = (if p = nullptr then xs else [])"

text \<open>
  The root with the cached children A = 1 and B = 2 after a first reconciliation: the children
  of A and of B were never loaded.
\<close>

definition cache_AB :: node where
  "cache_AB = Node nullptr 0 [InternalNode 1 0, InternalNode 2 1] False False True"

text \<open>The live source after the item X = 9 was inserted in front of A and B.\<close>

definition live_XAB :: adapter where
  "live_XAB = source_adapter (top_level [9, 1, 2]) (\<lambda>x. nullptr)"

text \<open>The source of \<open>live_XAB\<close> with a payload for every item and role.\<close>

definition payload_adapter :: adapter where
  "payload_adapter = live_XAB\<lparr>data := (\<lambda>x role. Some ''payload'')\<rparr>"

text \<open>The model with the cache [A, B] and no update in progress.\<close>

definition model_AB :: model where
  "model_AB = \<lparr>m_syncing = False, m_updating = 0, m_root = cache_AB\<rparr>"

text \<open>The source with the top-level items A and B, and the source after A got two children.\<close>

definition live_AB :: adapter where
  "live_AB = source_adapter (top_level [1, 2]) (\<lambda>x. nullptr)"

definition live_A_grown :: adapter where
  "live_A_grown =
     source_adapter (\<lambda>p. if p = nullptr then [1, 2] else if p = 1 then [5, 6] else [])
       (\<lambda>x. if x = 5 \<or> x = 6 then 1 else nullptr)"

text \<open>The cache [A, B] after \<^verbatim>\<open>hasChildren\<close> was asked for A and the source had none.\<close>

definition cache_AB_probed :: node where
  "cache_AB_probed =
     Node nullptr 0 [Node 1 0 [] True False False, InternalNode 2 1] False False True"

text \<open>A model whose root has the loaded child A with one child of its own.\<close>

definition model_loaded :: model where
  "model_loaded =
     \<lparr>m_syncing = False, m_updating = 0,
       m_root = Node nullptr 0 [Node 1 0 [InternalNode 5 0] False False True] False False True\<rparr>"

text \<open>The model after the reconciliation with a source that has no items at all.\<close>

definition model_empty :: model where
  "model_empty = \<lparr>m_syncing = False, m_updating = 0, m_root = Node nullptr 0 [] False False True\<rparr>"

definition live_empty :: adapter where
  "live_empty = source_adapter (top_level []) (\<lambda>x. nullptr)"

text \<open>The cache [A, B] where A is loaded and has no children; the live order [B, A].\<close>

definition cache_AB_loaded :: node where
  "cache_AB_loaded =
     Node nullptr 0 [Node 1 0 [] False False True, InternalNode 2 1] False False True"

definition live_BA :: adapter where
  "live_BA = source_adapter (top_level [2, 1]) (\<lambda>x. nullptr)"

text \<open>
  The events scenario 10 of the specification states for the swap: A is removed from row 0,
  then inserted again behind B, at row 1.
\<close>

definition scenario_swap_events :: "row_event list" where
  "scenario_swap_events = [RowsRemoved InvalidIndex 0 0, RowsInserted InvalidIndex 1 1]"

text \<open>A source where item 1 reports itself as its parent and has the child 2.\<close>

definition cyclic_source :: adapter where
  "cyclic_source = source_adapter (\<lambda>p. if p = 1 then [2] else []) (\<lambda>x. 1)"

text \<open>
  A source with the root item 7 and the top-level items 1 and 2, and a cache that was loaded
  when the source had the item 1 only.
\<close>

definition grown_source :: adapter where
  "grown_source =
     source_adapter (\<lambda>p. if p = nullptr \<or> p = 7 then [1, 2] else [])
       (\<lambda>x. if x = 7 then nullptr else 7)"

definition stale_root :: node where
  "stale_root = Node nullptr 0 [InternalNode 1 0] False False True"

section \<open>The position invariant as a predicate\<close>

text \<open>
  The children vector \<open>ns\<close> of a node has the position invariant when
  \<^verbatim>\<open>ns[i]->parentIndex == i\<close> for every position \<open>i\<close> (lemma \<open>positions_ok_iff\<close>); a
  subtree has it when every node of the subtree has it for its children.
\<close>

definition positions_ok :: "node list \<Rightarrow> bool" where
  "positions_ok ns = (map parentIndex ns = [0 ..< length ns])"

fun tree_positions_ok :: "node \<Rightarrow> bool" where
  "tree_positions_ok (Node it ix cs q h ci) =
     (positions_ok cs \<and> (\<forall>c \<in> set cs. tree_positions_ok c))"

definition nodes_ok :: "node list \<Rightarrow> bool" where
  "nodes_ok ns = (positions_ok ns \<and> (\<forall>c \<in> set ns. tree_positions_ok c))"

section \<open>Order fidelity and idempotence\<close>

text \<open>
  C1 (order fidelity). After a reconciliation the cached children should equal the live
  children, in order. With the cache [A, B], both never loaded, and the live order [X, A, B]
  the reconciliation inserts X and then removes A: line 137 sets \<^verbatim>\<open>srcStart\<close> to
  \<^verbatim>\<open>srcCur + 1\<close> before the insertion moves \<^verbatim>\<open>srcCur\<close>, and only the branch for a loaded
  node (line 164) sets it again. The cache ends as [X, B] while the source holds [X, A, B].
\<close>

theorem order_fidelity_broken_after_insert:
  "syncNodeList live_XAB [] cache_AB nullptr =
     Inr ([RowsInserted InvalidIndex 0 0, RowsRemoved InvalidIndex 1 1],
          Node nullptr 0 [InternalNode 9 0, InternalNode 2 1] False False True)
   \<and> map item [InternalNode 9 0, InternalNode 2 1] = [9, 2]
   \<and> map (\<lambda>k. getItem live_XAB nullptr (int k)) [0 ..< nat (getItemsCount live_XAB nullptr)]
       = [9, 1, 2]"
  by code_simp

text \<open>
  A second defect on the same path: with the cache [A] and the live order [B] the final
  iteration removes A and keeps \<^verbatim>\<open>srcCur\<close> at 1 (line 133 resets it only when the loop is
  not finishing), and the insertion of B emplaces at position 1 of the empty vector.
\<close>

theorem replaced_tail_emplaces_out_of_range:
  "syncNodeList (source_adapter (top_level [2]) (\<lambda>x. nullptr)) []
     (Node nullptr 0 [InternalNode 1 0] False False True) nullptr = Inl OutOfRange"
  by code_simp

text \<open>
  C2 (idempotence). A second reconciliation against the unchanged source should raise no row
  signal. After the run above the cache is [X, B]; the second run against the same source
  inserts A and removes B.
\<close>

theorem second_reconciliation_emits_events:
  "syncNodeList live_XAB [] cache_AB nullptr =
     Inr ([RowsInserted InvalidIndex 0 0, RowsRemoved InvalidIndex 1 1],
          Node nullptr 0 [InternalNode 9 0, InternalNode 2 1] False False True)
   \<and> syncNodeList live_XAB [] (Node nullptr 0 [InternalNode 9 0, InternalNode 2 1] False False True)
         nullptr =
     Inr ([RowsInserted InvalidIndex 1 1, RowsRemoved InvalidIndex 2 2],
          Node nullptr 0 [InternalNode 9 0, InternalNode 1 1] False False True)"
  by code_simp

section \<open>Position invariant\<close>

lemma tree_positions_ok_children:
  "tree_positions_ok n = nodes_ok (children n)"
  by (cases n) (simp add: nodes_ok_def)

lemma parentIndex_set_parentIndex [simp]: "parentIndex (set_parentIndex k n) = k"
  by (simp add: set_parentIndex_def)

lemma children_set_parentIndex [simp]: "children (set_parentIndex k n) = children n"
  by (simp add: set_parentIndex_def)

lemma tree_ok_set_parentIndex [simp]:
  "tree_positions_ok (set_parentIndex k n) = tree_positions_ok n"
  by (simp add: tree_positions_ok_children)

lemma tree_ok_InternalNode [simp]: "tree_positions_ok (InternalNode obj k)"
  by (simp add: InternalNode_def positions_ok_def)

lemma parentIndex_InternalNode [simp]: "parentIndex (InternalNode obj k) = k"
  by (simp add: InternalNode_def)

lemma map_parentIndex_renumber: "map parentIndex (renumber k ns) = [k ..< k + length ns]"
  by (induction ns arbitrary: k) (simp_all add: upt_rec)

lemma set_renumber_ok:
  "(\<forall>c \<in> set (renumber k ns). tree_positions_ok c) = (\<forall>c \<in> set ns. tree_positions_ok c)"
  by (induction ns arbitrary: k) simp_all

lemma renumber_okD:
  "c \<in> set (renumber k ns) \<Longrightarrow> \<forall>x \<in> set ns. tree_positions_ok x \<Longrightarrow> tree_positions_ok c"
  using set_renumber_ok by blast

lemma map_add_upt_left: "map (\<lambda>i. cur + i) [0 ..< cnt] = [cur ..< cur + cnt]"
  by (induction cnt) simp_all

lemma positions_ok_take: "positions_ok ns \<Longrightarrow> b \<le> length ns \<Longrightarrow> map parentIndex (take b ns) = [0 ..< b]"
  unfolding positions_ok_def
  by (metis take_map take_upt add_0 )

lemma positions_ok_nth: "positions_ok ns \<Longrightarrow> b < length ns \<Longrightarrow> parentIndex (ns ! b) = b"
  unfolding positions_ok_def
  by (metis add_0 nth_map nth_upt)

lemma upt_append: "i \<le> j \<Longrightarrow> j \<le> k \<Longrightarrow> [i ..< j] @ [j ..< k] = [i ..< (k::nat)]"
  by (metis le_Suc_ex upt_add_eq_append)

lemma nodes_ok_eraseChildren:
  assumes "nodes_ok ns" "b < e" "e \<le> length ns"
  shows "nodes_ok (eraseChildren ns b e)"
proof -
  have b: "b \<le> length ns" "b < length ns" using assms by simp_all
  have pos: "positions_ok ns" using assms(1) by (simp add: nodes_ok_def)
  have "map parentIndex (eraseChildren ns b e) = [0 ..< b] @ [b ..< b + (length ns - e)]"
    using positions_ok_take [OF pos b(1)] positions_ok_nth [OF pos b(2)]
    by (simp add: eraseChildren_def map_parentIndex_renumber)
  also have "\<dots> = [0 ..< b + (length ns - e)]"
    by (rule upt_append) simp_all
  finally have "positions_ok (eraseChildren ns b e)"
    using b by (simp add: positions_ok_def eraseChildren_def min_def)
  moreover have "\<forall>c \<in> set (eraseChildren ns b e). tree_positions_ok c"
    using assms(1)
    by (auto simp add: nodes_ok_def eraseChildren_def dest: in_set_takeD in_set_dropD renumber_okD)
  ultimately show ?thesis by (simp add: nodes_ok_def)
qed

lemma nodes_ok_insert:
  assumes "nodes_ok ns" "cur \<le> length ns"
  shows "nodes_ok (insertedChildren (emplace_new a parent dst cur cnt ns) (cur + cnt))"
proof -
  let ?new = "map (\<lambda>i. InternalNode (getItem a parent (dst + int i)) (cur + i)) [0 ..< cnt]"
  have pos: "positions_ok ns" using assms(1) by (simp add: nodes_ok_def)
  have ins: "insertedChildren (emplace_new a parent dst cur cnt ns) (cur + cnt) =
        take cur ns @ ?new @ renumber (cur + cnt) (drop cur ns)"
    using assms(2) by (simp add: insertedChildren_def emplace_new_eq)
  have new: "map parentIndex ?new = [cur ..< cur + cnt]"
    by (simp add: comp_def map_add_upt_left)
  have "map parentIndex (take cur ns @ ?new @ renumber (cur + cnt) (drop cur ns)) =
        [0 ..< cur] @ [cur ..< cur + cnt] @ [cur + cnt ..< cur + cnt + (length ns - cur)]"
    using positions_ok_take [OF pos assms(2)] new
    by (simp only: map_append map_parentIndex_renumber length_drop)
  also have "\<dots> = [0 ..< cur + cnt + (length ns - cur)]"
    by (simp add: upt_append)
  finally have "positions_ok (take cur ns @ ?new @ renumber (cur + cnt) (drop cur ns))"
    using assms(2) by (simp add: positions_ok_def min_def)
  moreover have "\<forall>c \<in> set (take cur ns @ ?new @ renumber (cur + cnt) (drop cur ns)).
      tree_positions_ok c"
    using assms(1)
    by (auto simp add: nodes_ok_def dest: in_set_takeD in_set_dropD renumber_okD)
  ultimately show ?thesis by (simp add: nodes_ok_def ins)
qed

lemma nodes_ok_remove_skipped:
  assumes "nodes_ok (nodes st)" "srcCur st \<le> length (nodes st)"
  shows "nodes_ok (nodes (remove_skipped index fin st))"
  using assms nodes_ok_eraseChildren [of "nodes st" "srcStart st" "srcCur st"]
  by (simp add: remove_skipped_def Let_def)

lemma nodes_ok_insert_skipped:
  assumes "nodes_ok (nodes st)" "insert_skipped a index parent fin d st = Inr b"
  shows "nodes_ok (nodes b)"
  using assms nodes_ok_insert [of "nodes st" "srcCur st" a parent "destStart st"]
  by (auto simp add: insert_skipped_def Let_def split: if_splits)

lemma isInitialized_fields:
  "parentIndex (snd (isInitialized a n)) = parentIndex n"
  "children (snd (isInitialized a n)) = children n"
  "item (snd (isInitialized a n)) = item n"
  by (simp_all add: isInitialized_def Let_def set_childInitialized_def)

lemma syncNodeList_fields:
  assumes "syncNodeList a p n parent = Inr (evs, n')"
  shows "parentIndex n' = parentIndex n" "item n' = item n" "childInitialized n'"
  using assms
  by (auto simp add: syncNodeList.simps set_childInitialized_def set_children_def
      split: sum.splits)

lemma nodes_ok_update:
  assumes "nodes_ok ns" "i < length ns" "tree_positions_ok y" "parentIndex y = parentIndex (ns ! i)"
  shows "nodes_ok (ns[i := y])"
proof -
  have "map parentIndex (ns[i := y]) = (map parentIndex ns)[i := parentIndex (ns ! i)]"
    using assms(4) by (simp add: map_update)
  also have "\<dots> = map parentIndex ns"
    using assms(2) by (simp add: list_update_same_conv)
  finally have "positions_ok (ns[i := y])"
    using assms(1) by (simp add: nodes_ok_def positions_ok_def)
  moreover have "\<forall>c \<in> set (ns[i := y]). tree_positions_ok c"
    using assms(1,3) by (auto simp add: nodes_ok_def dest!: subsetD [OF set_update_subset_insert])
  ultimately show ?thesis by (simp add: nodes_ok_def)
qed

lemma sync_positions:
  "tree_positions_ok node \<Longrightarrow> syncNodeList a p node parent = Inr (evs, node') \<Longrightarrow>
     tree_positions_ok node'"
  "nodes_ok (nodes st) \<Longrightarrow> sync_loop a index p parent st = Inr st' \<Longrightarrow> nodes_ok (nodes st')"
proof (induction a p node parent and a index p parent st arbitrary: evs node' and st'
    rule: syncNodeList_sync_loop.induct)
  case (1 a p node parent)
  from "1.prems"(2) obtain st1 where
    loop: "sync_loop a (getIndex p node 0) p parent
             \<lparr>nodes = children node, srcStart = 0, srcCur = 0, destStart = 0, emitted = []\<rparr> = Inr st1"
    and node': "node' = set_childInitialized True (set_children (nodes st1) node)"
    by (auto simp add: syncNodeList.simps split: sum.splits)
  have "nodes_ok (nodes st1)"
    using "1.IH" [OF _ loop] "1.prems"(1) by (simp add: tree_positions_ok_children)
  then show ?case
    by (simp add: node' tree_positions_ok_children set_childInitialized_def set_children_def)
next
  case (2 a index p parent st)
  note ok = "2.prems"(1) and res = "2.prems"(2)
  show ?case
  proof (cases "srcCur st \<le> length (nodes st)")
    case False
    with res ok show ?thesis by (simp add: sync_loop.simps)
  next
    case le: True
    let ?fin = "length (nodes st) \<le> srcCur st"
    let ?d = "if \<not> ?fin then indexOf a parent (item (nodes st ! srcCur st)) (destStart st) else 0"
    show ?thesis
    proof (cases "0 \<le> ?d")
      case False
      with res le have "sync_loop a index p parent (st\<lparr>srcCur := srcCur st + 1\<rparr>) = Inr st'"
        by (subst (asm) sync_loop.simps) (simp add: Let_def)
      with "2.IH"(5) [OF le refl refl False] ok show ?thesis by simp
    next
      case found: True
      show ?thesis
      proof (cases "insert_skipped a index parent ?fin ?d (remove_skipped index ?fin st)")
        case (Inl e)
        with res le found show ?thesis
          by (subst (asm) sync_loop.simps) (simp add: Let_def)
      next
        case (Inr b)
        have okb: "nodes_ok (nodes b)"
          using nodes_ok_insert_skipped [OF nodes_ok_remove_skipped [OF ok le] Inr] .
        show ?thesis
        proof (cases ?fin)
          case True
          with res le found Inr
          have "sync_loop a index p parent (b\<lparr>srcCur := srcCur b + 1\<rparr>) = Inr st'"
            by (subst (asm) sync_loop.simps) (simp add: Let_def)
          with "2.IH"(1) [OF le refl refl found Inr True] okb show ?thesis by simp
        next
          case nfin: False
          then have lt: "srcCur st < length (nodes st)" by simp
          from Inr nfin have step: "insert_skipped a index parent False
              (indexOf a parent (item (nodes st ! srcCur st)) (destStart st))
              (remove_skipped index False st) = Inr b"
            by simp
          have ltb: "srcCur b < length (nodes b)"
            by (rule sync_step_measure(1) [OF lt step])
          obtain xb y where init: "isInitialized a (nodes b ! srcCur b) = (xb, y)"
            by (cases "isInitialized a (nodes b ! srcCur b)")
          have cur_ok: "tree_positions_ok (nodes b ! srcCur b)"
            using okb ltb by (simp add: nodes_ok_def)
          have "children y = children (nodes b ! srcCur b)"
            using isInitialized_fields(2) [of a "nodes b ! srcCur b"] init by simp
          with cur_ok have y2: "tree_positions_ok y"
            by (simp only: tree_positions_ok_children)
          have y1: "parentIndex y = parentIndex (nodes b ! srcCur b)"
            using isInitialized_fields(1) [of a "nodes b ! srcCur b"] init by simp
          note y = y1 y2
          show ?thesis
          proof (cases xb)
            case True
            then have xbT: "xb = True" by simp
            show ?thesis
            proof (cases "syncNodeList a (p @ [srcCur b]) y (item y)")
              case (Inl e)
              with res le found Inr nfin init True show ?thesis
                by (subst (asm) sync_loop.simps) (simp add: Let_def)
            next
              case rec: (Inr r)
              obtain xc ya where r: "r = (xc, ya)" by (cases r)
              from res le found Inr nfin init True rec r
              have loop: "sync_loop a index p parent
                  (b\<lparr>nodes := (nodes b)[srcCur b := ya], srcStart := srcCur b + 1,
                     srcCur := srcCur b + 1, emitted := emitted b @ xc\<rparr>) = Inr st'"
                by (subst (asm) sync_loop.simps) (simp add: Let_def)
              have ya: "tree_positions_ok ya"
                using "2.IH"(2) [OF le refl refl found Inr nfin init [symmetric] xbT y(2)] rec r
                by simp
              have "parentIndex ya = parentIndex (nodes b ! srcCur b)"
                using syncNodeList_fields(1) [of a "p @ [srcCur b]" y "item y" xc ya] rec r y(1)
                by simp
              then have "nodes_ok ((nodes b)[srcCur b := ya])"
                using nodes_ok_update [OF okb ltb ya] by simp
              with "2.IH"(3) [OF le refl refl found Inr nfin init [symmetric] xbT _ r [symmetric] _ loop]
                rec r
              show ?thesis by simp
            qed
          next
            case False
            then have xbF: "xb = False" by simp
            from False res le found Inr nfin init
            have loop: "sync_loop a index p parent
                (b\<lparr>nodes := (nodes b)[srcCur b := y], srcCur := srcCur b + 1\<rparr>) = Inr st'"
              by (subst (asm) sync_loop.simps) (simp add: Let_def)
            have "nodes_ok ((nodes b)[srcCur b := y])"
              using nodes_ok_update [OF okb ltb y(2) y(1)] .
            with "2.IH"(4) [OF le refl refl found Inr nfin init [symmetric] xbF _ loop]
            show ?thesis by simp
          qed
        qed
      qed
    qed
  qed
qed

lemma positions_ok_iff: "positions_ok ns \<longleftrightarrow> (\<forall>i < length ns. parentIndex (ns ! i) = i)"
proof
  assume "positions_ok ns"
  then show "\<forall>i < length ns. parentIndex (ns ! i) = i"
    using positions_ok_nth by blast
next
  assume idx: "\<forall>i < length ns. parentIndex (ns ! i) = i"
  show "positions_ok ns"
    unfolding positions_ok_def by (rule nth_equalityI) (simp_all add: idx)
qed

text \<open>
  C3 (position invariant). \<^verbatim>\<open>children[i]->parentIndex == i\<close> holds for the children of every
  node after each structural operation: it holds for the root the constructor builds; the
  removal of a range of children (\<^verbatim>\<open>eraseChildren\<close>, called with a non-empty range inside
  the vector) keeps it; the insertion of a range of new children (the emplace loop followed by
  \<^verbatim>\<open>insertedChildren\<close>) keeps it; and a reconciliation pass that completes keeps it in the
  whole subtree of the node it was called for.
\<close>

theorem position_invariant:
  "tree_positions_ok (InternalNode nullptr 0)
   \<and> (nodes_ok ns \<longrightarrow> b < e \<longrightarrow> e \<le> length ns \<longrightarrow> nodes_ok (eraseChildren ns b e))
   \<and> (nodes_ok ns \<longrightarrow> cur \<le> length ns \<longrightarrow>
        nodes_ok (insertedChildren (emplace_new a parent dst cur cnt ns) (cur + cnt)))
   \<and> (tree_positions_ok node \<longrightarrow> syncNodeList a p node parent = Inr (evs, node') \<longrightarrow>
        tree_positions_ok node')"
  using nodes_ok_eraseChildren [of ns b e] nodes_ok_insert [of ns cur a parent dst cnt]
    sync_positions(1) [of node a p parent evs node']
  by simp

text \<open>The invariant on a vector of three nodes and on the cache [A, B] reconciled with [X, A, B].\<close>

theorem position_invariant_witness:
  "nodes_ok [InternalNode 1 0, InternalNode 2 1, InternalNode 3 2]
   \<and> nodes_ok (eraseChildren [InternalNode 1 0, InternalNode 2 1, InternalNode 3 2] 1 2)
   \<and> nodes_ok (insertedChildren
         (emplace_new live_XAB nullptr 0 1 2 [InternalNode 1 0, InternalNode 2 1, InternalNode 3 2])
         (1 + 2))
   \<and> tree_positions_ok cache_AB
   \<and> syncNodeList live_XAB [] cache_AB nullptr =
       Inr ([RowsInserted InvalidIndex 0 0, RowsRemoved InvalidIndex 1 1],
            Node nullptr 0 [InternalNode 9 0, InternalNode 2 1] False False True)
   \<and> tree_positions_ok (Node nullptr 0 [InternalNode 9 0, InternalNode 2 1] False False True)"
proof -
  have h1: "nodes_ok [InternalNode 1 0, InternalNode 2 1, InternalNode 3 2]"
    by code_simp
  have h2: "tree_positions_ok cache_AB"
    by code_simp
  have h3: "syncNodeList live_XAB [] cache_AB nullptr =
       Inr ([RowsInserted InvalidIndex 0 0, RowsRemoved InvalidIndex 1 1],
            Node nullptr 0 [InternalNode 9 0, InternalNode 2 1] False False True)"
    by code_simp
  show ?thesis
    using position_invariant [where ns = "[InternalNode 1 0, InternalNode 2 1, InternalNode 3 2]"
        and b = 1 and e = 2 and cur = 1 and a = live_XAB and parent = nullptr and dst = 0
        and cnt = 2 and node = cache_AB and p = "[]"
        and evs = "[RowsInserted InvalidIndex 0 0, RowsRemoved InvalidIndex 1 1]"
        and node' = "Node nullptr 0 [InternalNode 9 0, InternalNode 2 1] False False True"]
      h1 h2 h3
    by simp
qed

section \<open>Payload reads during an update\<close>

text \<open>
  C7 (stale read during an update). While \<^verbatim>\<open>m_updating\<close> is greater than 0,
  \<^verbatim>\<open>data\<close> returns the default-constructed \<^verbatim>\<open>QVariant\<close> for every index and every role: the
  result is the same for every adapter and for every internal pointer, so neither the adapter
  nor the node is read, and no fault arises.
\<close>

theorem stale_read_returns_default:
  "0 < m_updating m \<Longrightarrow> model_data a m index role = Inr None"
  by (simp add: model_data_def)

text \<open>
  After \<^verbatim>\<open>beginUpdate\<close> the read of the first row gives the default value; before it, the
  same read gives the adapter's payload.
\<close>

theorem stale_read_returns_default_witness:
  "0 < m_updating (beginUpdate model_AB)
   \<and> model_data payload_adapter (beginUpdate model_AB) (ModelIndex 0 0 [0]) 0 = Inr None
   \<and> model_data payload_adapter model_AB (ModelIndex 0 0 [0]) 0 = Inr (Some ''payload'')"
proof -
  have h: "0 < m_updating (beginUpdate model_AB)"
    by (simp add: beginUpdate_def model_AB_def)
  have "model_data payload_adapter model_AB (ModelIndex 0 0 [0]) 0 = Inr (Some ''payload'')"
    by (simp add: model_data_def getNode_def model_AB_def cache_AB_def payload_adapter_def)
  with stale_read_returns_default [OF h, of payload_adapter "ModelIndex 0 0 [0]" 0] h
  show ?thesis by simp
qed

section \<open>Nested updates\<close>

lemma run_begins:
  "run_calls a (replicate N BeginUpdate @ cs) m =
   run_calls a cs (m\<lparr>m_updating := m_updating m + int N\<rparr>)"
proof (induction N arbitrary: m)
  case 0
  show ?case by simp
next
  case (Suc N)
  show ?case by (simp add: Suc.IH beginUpdate_def add.assoc)
qed

lemma endUpdate_inner:
  "1 < m_updating m \<Longrightarrow> endUpdate a m = Inr ([], m\<lparr>m_updating := m_updating m - 1\<rparr>)"
  by (simp add: endUpdate_def Let_def)

lemma run_inner_ends:
  "int j < m_updating m \<Longrightarrow>
   run_calls a (replicate j EndUpdate @ cs) m =
   run_calls a cs (m\<lparr>m_updating := m_updating m - int j\<rparr>)"
proof (induction j arbitrary: m)
  case 0
  show ?case by simp
next
  case (Suc j)
  from Suc.prems have 1: "1 < m_updating m" by simp
  from Suc.prems have 2: "int j < m_updating (m\<lparr>m_updating := m_updating m - 1\<rparr>)" by simp
  show ?case
    by (simp add: endUpdate_inner [OF 1] Suc.IH [OF 2] diff_diff_eq split: sum.splits prod.splits)
qed

lemma endUpdate_outermost:
  "m_updating m = 1 \<Longrightarrow>
   endUpdate a m =
     (case syncNodeList a [] (m_root m) nullptr of
        Inl e \<Rightarrow> Inl e
      | Inr (evs, r) \<Rightarrow>
          Inr (SyncTreeCall 1 # map Rows evs @ [DataChanged InvalidIndex InvalidIndex],
               m\<lparr>m_syncing := False, m_updating := 0, m_root := r\<rparr>))"
  by (simp add: endUpdate_def syncTree_def Let_def split: sum.splits)

text \<open>
  C5 (batch collapsing). Starting with no update in progress, \<open>N \<ge> 1\<close> nested calls of
  \<^verbatim>\<open>beginUpdate\<close> followed by the first \<open>N - 1\<close> calls of \<^verbatim>\<open>endUpdate\<close> raise nothing and
  leave the depth at 1. With the last \<^verbatim>\<open>endUpdate\<close> the whole run makes exactly one call of
  \<^verbatim>\<open>syncTree\<close>, at depth 1, followed by the row signals of that reconciliation and by
  exactly one \<^verbatim>\<open>dataChanged\<close>, and ends at depth 0. When the reconciliation hits
  undefined behaviour, so does the run.
\<close>

theorem batch_collapsing:
  assumes "1 \<le> N" and "m_updating m = 0"
  shows "run_calls a (replicate N BeginUpdate @ replicate (N - 1) EndUpdate) m =
           Inr ([], m\<lparr>m_updating := 1\<rparr>)
         \<and> run_calls a (replicate N BeginUpdate @ replicate N EndUpdate) m =
           (case syncNodeList a [] (m_root m) nullptr of
              Inl e \<Rightarrow> Inl e
            | Inr (evs, r) \<Rightarrow>
                Inr (SyncTreeCall 1 # map Rows evs @ [DataChanged InvalidIndex InvalidIndex],
                     m\<lparr>m_syncing := False, m_updating := 0, m_root := r\<rparr>))"
proof -
  let ?m = "m\<lparr>m_updating := m_updating m + int N\<rparr>"
  have depth: "int (N - 1) < m_updating ?m"
    using assms by simp
  have inner: "run_calls a (replicate (N - 1) EndUpdate @ cs) ?m =
               run_calls a cs (m\<lparr>m_updating := 1\<rparr>)" for cs
    using run_inner_ends [OF depth, of a cs] assms by simp
  have first: "run_calls a (replicate N BeginUpdate @ replicate (N - 1) EndUpdate) m =
           Inr ([], m\<lparr>m_updating := 1\<rparr>)"
    using inner [of "[]"] by (simp add: run_begins)
  have split: "replicate N EndUpdate = replicate (N - 1) EndUpdate @ [EndUpdate]"
    using assms(1) by (cases N) (simp_all add: replicate_append_same)
  have "run_calls a (replicate N BeginUpdate @ replicate N EndUpdate) m =
        run_calls a [EndUpdate] (m\<lparr>m_updating := 1\<rparr>)"
    using inner [of "[EndUpdate]"] by (simp add: run_begins split)
  also have "\<dots> = (case syncNodeList a [] (m_root m) nullptr of
              Inl e \<Rightarrow> Inl e
            | Inr (evs, r) \<Rightarrow>
                Inr (SyncTreeCall 1 # map Rows evs @ [DataChanged InvalidIndex InvalidIndex],
                     m\<lparr>m_syncing := False, m_updating := 0, m_root := r\<rparr>))"
    by (simp add: endUpdate_outermost split: sum.splits)
  finally show ?thesis using first by simp
qed

text \<open>Three nested pairs on the cache [A, B] with the live order [X, A, B].\<close>

theorem batch_collapsing_witness:
  "(1::nat) \<le> 3 \<and> m_updating model_AB = 0
   \<and> run_calls live_XAB (replicate 3 BeginUpdate @ replicate (3 - 1) EndUpdate) model_AB =
       Inr ([], model_AB\<lparr>m_updating := 1\<rparr>)
   \<and> run_calls live_XAB (replicate 3 BeginUpdate @ replicate 3 EndUpdate) model_AB =
       Inr ([SyncTreeCall 1, Rows (RowsInserted InvalidIndex 0 0), Rows (RowsRemoved InvalidIndex 1 1),
             DataChanged InvalidIndex InvalidIndex],
            \<lparr>m_syncing = False, m_updating = 0,
              m_root = Node nullptr 0 [InternalNode 9 0, InternalNode 2 1] False False True\<rparr>)"
proof -
  have h1: "(1::nat) \<le> 3" by simp
  have h2: "m_updating model_AB = 0" by (simp add: model_AB_def)
  have sync: "syncNodeList live_XAB [] cache_AB nullptr =
       Inr ([RowsInserted InvalidIndex 0 0, RowsRemoved InvalidIndex 1 1],
            Node nullptr 0 [InternalNode 9 0, InternalNode 2 1] False False True)"
    by code_simp
  show ?thesis
    using batch_collapsing [OF h1 h2, of live_XAB] h2
    by (simp add: sync model_AB_def)
qed

section \<open>Presence probe and forced reconciliation\<close>

text \<open>Nodes addressed by a pointer, and the node at the cursor of a reconciliation step.\<close>

lemma children_set_children [simp]: "children (set_children cs n) = cs"
  by (simp add: set_children_def)

lemma node_at_update_at:
  "node_at root p = Some n \<Longrightarrow> node_at (update_at f p root) p = Some (f n)"
proof (induction p arbitrary: root)
  case Nil
  then show ?case by simp
next
  case (Cons i p)
  from Cons.prems have i: "i < length (children root)"
    and sub: "node_at (children root ! i) p = Some n"
    by (simp_all split: if_splits)
  show ?case
    using i Cons.IH [OF sub] by simp
qed

lemma set_parentIndex_twice [simp]: "set_parentIndex k (set_parentIndex j n) = set_parentIndex k n"
  by (simp add: set_parentIndex_def)

lemma set_parentIndex_same [simp]: "set_parentIndex (parentIndex n) n = n"
  by (cases n) (simp add: set_parentIndex_def)

lemma renumber_nth: "i < length ns \<Longrightarrow> renumber k ns ! i = set_parentIndex (k + i) (ns ! i)"
proof (induction ns arbitrary: k i)
  case Nil
  then show ?case by simp
next
  case (Cons n ns)
  show ?case
  proof (cases i)
    case 0
    then show ?thesis by simp
  next
    case (Suc j)
    with Cons.prems have "j < length ns" by simp
    from Cons.IH [OF this, of "Suc k"] Suc show ?thesis by simp
  qed
qed

lemma remove_skipped_cursor:
  assumes "srcCur st < length (nodes st)"
  shows "\<exists>k. nodes (remove_skipped index False st) ! srcCur (remove_skipped index False st) =
             set_parentIndex k (nodes st ! srcCur st)"
proof (cases "srcCur st > srcStart st")
  case True
  let ?cp = "parentIndex (nodes st ! srcStart st)"
  have "(take (srcStart st) (nodes st) @ renumber ?cp (drop (srcCur st) (nodes st))) ! srcStart st =
        renumber ?cp (drop (srcCur st) (nodes st)) ! 0"
    using True assms by (simp add: nth_append min_def)
  also have "\<dots> = set_parentIndex ?cp (nodes st ! srcCur st)"
    using assms by (simp add: renumber_nth)
  finally show ?thesis
    using True by (auto simp add: remove_skipped_def eraseChildren_def Let_def)
next
  case False
  then show ?thesis
    by (intro exI [of _ "parentIndex (nodes st ! srcCur st)"])
      (simp add: remove_skipped_def Let_def)
qed

lemma insert_skipped_cursor:
  assumes "srcCur st < length (nodes st)"
    and "insert_skipped a index parent fin d st = Inr b"
  shows "\<exists>k. nodes b ! srcCur b = set_parentIndex k (nodes st ! srcCur st)"
proof -
  define dc where "dc = (if fin then getItemsCount a parent else d)"
  define cnt where "cnt = nat (dc - destStart st)"
  define new where "new =
    map (\<lambda>i. InternalNode (getItem a parent (destStart st + int i)) (srcCur st + i)) [0 ..< cnt]"
  show ?thesis
  proof (cases "destStart st < dc")
    case True
    have "insert_skipped a index parent fin d st =
          Inr (st\<lparr>nodes := insertedChildren
                            (emplace_new a parent (destStart st) (srcCur st) cnt (nodes st))
                            (srcCur st + cnt),
                  srcCur := srcCur st + cnt,
                  destStart := dc + 1,
                  emitted := emitted st @
                    [RowsInserted index (srcCur st) (srcCur st + cnt - 1)]\<rparr>)"
      using True assms(1) unfolding insert_skipped_def dc_def cnt_def Let_def by simp
    with assms(2) have b: "nodes b = insertedChildren
          (emplace_new a parent (destStart st) (srcCur st) cnt (nodes st)) (srcCur st + cnt)"
      and cur: "srcCur b = srcCur st + cnt"
      by auto
    have le: "srcCur st \<le> length (nodes st)" using assms(1) by simp
    have nodes: "nodes b = (take (srcCur st) (nodes st) @ new) @
        renumber (srcCur st + cnt) (drop (srcCur st) (nodes st))"
      using le unfolding b new_def by (simp add: insertedChildren_def emplace_new_eq)
    have len: "length (take (srcCur st) (nodes st) @ new) = srcCur st + cnt"
      using le by (simp add: new_def)
    have "((take (srcCur st) (nodes st) @ new) @
            renumber (srcCur st + cnt) (drop (srcCur st) (nodes st))) !
            (length (take (srcCur st) (nodes st) @ new) + 0) =
          renumber (srcCur st + cnt) (drop (srcCur st) (nodes st)) ! 0"
      by (rule nth_append_length_plus)
    then have "nodes b ! srcCur b = renumber (srcCur st + cnt) (drop (srcCur st) (nodes st)) ! 0"
      unfolding nodes cur len by simp
    also have "\<dots> = set_parentIndex (srcCur st + cnt) (nodes st ! srcCur st)"
      using assms(1) by (simp add: renumber_nth)
    finally show ?thesis by blast
  next
    case False
    have "insert_skipped a index parent fin d st = Inr (st\<lparr>destStart := dc + 1\<rparr>)"
      using False unfolding insert_skipped_def dc_def Let_def by simp
    with assms(2) have "b = st\<lparr>destStart := dc + 1\<rparr>"
      by simp
    then show ?thesis
      by (intro exI [of _ "parentIndex (nodes st ! srcCur st)"]) simp
  qed
qed

lemma sync_step_total:
  assumes "srcCur st < length (nodes st)"
  shows "\<exists>b. insert_skipped a index parent False d (remove_skipped index False st) = Inr b"
proof -
  have "srcCur st \<le> length (nodes st)" using assms by simp
  from remove_skipped_suffix(1) [OF this, of index]
  show ?thesis by (simp add: insert_skipped_def Let_def)
qed

lemma sync_step_cursor:
  assumes "srcCur st < length (nodes st)"
    and "insert_skipped a index parent False d (remove_skipped index False st) = Inr b"
  shows "\<exists>k. nodes b ! srcCur b = set_parentIndex k (nodes st ! srcCur st)"
proof -
  let ?st = "remove_skipped index False st"
  have le: "srcCur st \<le> length (nodes st)" using assms(1) by simp
  have "length (map weight (drop (srcCur ?st) (nodes ?st))) =
        length (map weight (drop (srcCur st) (nodes st)))"
    by (simp only: remove_skipped_suffix(2) [OF le])
  then have lt: "srcCur ?st < length (nodes ?st)"
    using assms(1) by simp
  from insert_skipped_cursor [OF lt assms(2)] obtain k
    where k: "nodes b ! srcCur b = set_parentIndex k (nodes ?st ! srcCur ?st)" ..
  from remove_skipped_cursor [OF assms(1), of index] obtain j
    where j: "nodes ?st ! srcCur ?st = set_parentIndex j (nodes st ! srcCur st)" ..
  show ?thesis using k j by auto
qed

lemma sync_loop_exit:
  "length (nodes st) < srcCur st \<Longrightarrow> sync_loop a index p parent st = Inr st"
  by (subst sync_loop.simps) simp

lemma syncNodeList_unloaded:
  assumes "children n = []" and "0 < getItemsCount a parent"
  shows "syncNodeList a p n parent =
           Inr ([RowsInserted (getIndex p n 0) 0 (nat (getItemsCount a parent) - 1)],
                set_childInitialized True
                  (set_children
                     (map (\<lambda>k. InternalNode (getItem a parent (int k)) k)
                        [0 ..< nat (getItemsCount a parent)]) n))"
proof -
  let ?cnt = "nat (getItemsCount a parent)"
  let ?new = "map (\<lambda>k. InternalNode (getItem a parent (int k)) k) [0 ..< ?cnt]"
  let ?st0 = "\<lparr>nodes = [], srcStart = 0, srcCur = 0, destStart = 0, emitted = []\<rparr>"
  let ?st1 = "\<lparr>nodes = ?new, srcStart = 1, srcCur = ?cnt, destStart = getItemsCount a parent + 1,
               emitted = [RowsInserted (getIndex p n 0) 0 (?cnt - 1)]\<rparr>"
  have "sync_loop a (getIndex p n 0) p parent ?st0 =
        sync_loop a (getIndex p n 0) p parent (?st1\<lparr>srcCur := srcCur ?st1 + 1\<rparr>)"
    using assms(2)
    by (subst sync_loop.simps)
      (simp add: remove_skipped_def insert_skipped_def insertedChildren_def emplace_new_eq Let_def)
  also have "\<dots> = Inr (?st1\<lparr>srcCur := srcCur ?st1 + 1\<rparr>)"
    by (rule sync_loop_exit) simp
  finally show ?thesis
    using assms(1) by (simp add: syncNodeList.simps)
qed

lemma isInitialized_probed:
  assumes "\<not> childInitialized n" and "hasChildrenQueryed n"
  shows "isInitialized a n =
           (hasChildren n \<noteq> (0 < getItemsCount a (item n)),
            if hasChildren n \<noteq> (0 < getItemsCount a (item n))
            then set_childInitialized True n else n)"
  using assms by (simp add: isInitialized_def set_childInitialized_def)

lemma set_parentIndex_fields [simp]:
  "item (set_parentIndex k n) = item n"
  "hasChildrenQueryed (set_parentIndex k n) = hasChildrenQueryed n"
  "hasChildren (set_parentIndex k n) = hasChildren n"
  "childInitialized (set_parentIndex k n) = childInitialized n"
  by (simp_all add: set_parentIndex_def)

text \<open>
  C6 (presence correction). First part: \<^verbatim>\<open>hasChildren\<close> on an unloaded node whose probe
  \<^verbatim>\<open>hasItems\<close> answers false leaves the node with \<^verbatim>\<open>hasChildrenQueryed\<close> set,
  \<^verbatim>\<open>hasChildren\<close> false and still no children. Second part: when an iteration of a later
  reconciliation of the parent reaches such a node (the node stands at \<^verbatim>\<open>srcCur\<close> and
  \<^verbatim>\<open>indexOf\<close> finds its item) and the source now has children below the item, the iteration,
  after its own removal and insertion at the parent's level, goes on with the node replaced
  by a loaded node that holds one new child per live item, in order, and with the signal for the
  insertion of the rows 0 to count - 1 below the node raised. Third part: \<^verbatim>\<open>isInitialized\<close>
  answers true, and leaves the node marked as loaded, exactly when the node was loaded
  already or it was probed and the cached presence differs from whether the source has a child
  now.
\<close>

theorem presence_correction:
  "(node_at (m_root m) ptr = Some n0 \<longrightarrow> children n0 = [] \<longrightarrow> \<not> childInitialized n0 \<longrightarrow>
      \<not> hasItems a0 (item n0) \<longrightarrow>
      model_hasChildren a0 m (ModelIndex r c ptr) =
        Inr (False, m\<lparr>m_root := update_at (\<lambda>n. set_hasChildren False (set_hasChildrenQueryed True n))
                                  ptr (m_root m)\<rparr>)
      \<and> node_at (update_at (\<lambda>n. set_hasChildren False (set_hasChildrenQueryed True n))
                    ptr (m_root m)) ptr =
          Some (Node (item n0) (parentIndex n0) [] True False False))
   \<and> (srcCur st < length (nodes st) \<longrightarrow>
      nodes st ! srcCur st = Node it ix [] True False False \<longrightarrow>
      0 \<le> indexOf a parent it (destStart st) \<longrightarrow>
      0 < getItemsCount a it \<longrightarrow>
      (\<exists>st1 k. insert_skipped a index parent False (indexOf a parent it (destStart st))
                  (remove_skipped index False st) = Inr st1
         \<and> nodes st1 ! srcCur st1 = Node it k [] True False False
         \<and> sync_loop a index p parent st =
           sync_loop a index p parent
             (st1\<lparr>nodes := (nodes st1)
                      [srcCur st1 :=
                         Node it k
                           (map (\<lambda>j. InternalNode (getItem a it (int j)) j)
                              [0 ..< nat (getItemsCount a it)])
                           True False True],
                   srcStart := srcCur st1 + 1,
                   srcCur := srcCur st1 + 1,
                   emitted := emitted st1 @
                     [RowsInserted (ModelIndex k 0 (p @ [srcCur st1])) 0
                        (nat (getItemsCount a it) - 1)]\<rparr>)))
   \<and> fst (isInitialized a n) =
       (childInitialized n \<or>
        hasChildrenQueryed n \<and> hasChildren n \<noteq> (0 < getItemsCount a (item n)))
   \<and> childInitialized (snd (isInitialized a n)) =
       (childInitialized n \<or>
        hasChildrenQueryed n \<and> hasChildren n \<noteq> (0 < getItemsCount a (item n)))"
proof (intro conjI impI)
  assume at: "node_at (m_root m) ptr = Some n0" and ch: "children n0 = []"
    and ci: "\<not> childInitialized n0" and has: "\<not> hasItems a0 (item n0)"
  show "model_hasChildren a0 m (ModelIndex r c ptr) =
        Inr (False, m\<lparr>m_root := update_at (\<lambda>n. set_hasChildren False (set_hasChildrenQueryed True n))
                                  ptr (m_root m)\<rparr>)"
    using at ci has by (simp add: model_hasChildren_def getNode_def)
  show "node_at (update_at (\<lambda>n. set_hasChildren False (set_hasChildrenQueryed True n))
                    ptr (m_root m)) ptr =
          Some (Node (item n0) (parentIndex n0) [] True False False)"
    using node_at_update_at [OF at] ch ci
    by (simp add: set_hasChildren_def set_hasChildrenQueryed_def)
next
  assume lt: "srcCur st < length (nodes st)"
    and cur: "nodes st ! srcCur st = Node it ix [] True False False"
    and found: "0 \<le> indexOf a parent it (destStart st)"
    and live: "0 < getItemsCount a it"
  let ?d = "indexOf a parent it (destStart st)"
  from sync_step_total [OF lt] obtain st1
    where step: "insert_skipped a index parent False ?d (remove_skipped index False st) = Inr st1"
    by blast
  from sync_step_cursor [OF lt step] cur obtain k
    where cur1: "nodes st1 ! srcCur st1 = Node it k [] True False False"
    by (auto simp add: set_parentIndex_def)
  let ?loaded = "Node it k (map (\<lambda>j. InternalNode (getItem a it (int j)) j)
                              [0 ..< nat (getItemsCount a it)]) True False True"
  have init: "isInitialized a (Node it k [] True False False) = (True, Node it k [] True False True)"
    using live by (simp add: isInitialized_def set_childInitialized_def)
  have rec: "syncNodeList a (p @ [srcCur st1]) (Node it k [] True False True) it =
        Inr ([RowsInserted (ModelIndex k 0 (p @ [srcCur st1])) 0 (nat (getItemsCount a it) - 1)],
             ?loaded)"
    using syncNodeList_unloaded [of "Node it k [] True False True" a it "p @ [srcCur st1]"] live
    by (simp add: getIndex_def set_childInitialized_def set_children_def)
  have "sync_loop a index p parent st =
        sync_loop a index p parent
          (st1\<lparr>nodes := (nodes st1)[srcCur st1 := ?loaded],
                srcStart := srcCur st1 + 1,
                srcCur := srcCur st1 + 1,
                emitted := emitted st1 @
                  [RowsInserted (ModelIndex k 0 (p @ [srcCur st1])) 0
                     (nat (getItemsCount a it) - 1)]\<rparr>)"
    using lt found
    by (subst sync_loop.simps) (simp add: cur step cur1 init rec)
  with step cur1
  show "\<exists>st1 k. insert_skipped a index parent False ?d (remove_skipped index False st) = Inr st1
         \<and> nodes st1 ! srcCur st1 = Node it k [] True False False
         \<and> sync_loop a index p parent st =
           sync_loop a index p parent
             (st1\<lparr>nodes := (nodes st1)
                      [srcCur st1 :=
                         Node it k
                           (map (\<lambda>j. InternalNode (getItem a it (int j)) j)
                              [0 ..< nat (getItemsCount a it)])
                           True False True],
                   srcStart := srcCur st1 + 1,
                   srcCur := srcCur st1 + 1,
                   emitted := emitted st1 @
                     [RowsInserted (ModelIndex k 0 (p @ [srcCur st1])) 0
                        (nat (getItemsCount a it) - 1)]\<rparr>)"
    by blast
next
  show "fst (isInitialized a n) =
       (childInitialized n \<or>
        hasChildrenQueryed n \<and> hasChildren n \<noteq> (0 < getItemsCount a (item n)))"
    by (simp add: isInitialized_def set_childInitialized_def)
next
  show "childInitialized (snd (isInitialized a n)) =
       (childInitialized n \<or>
        hasChildrenQueryed n \<and> hasChildren n \<noteq> (0 < getItemsCount a (item n)))"
    by (simp add: isInitialized_def set_childInitialized_def)
qed

text \<open>
  A is probed while the source has no child below it; then the source gets two children below
  A, and the next reconciliation of the root inserts both below A.
\<close>

theorem presence_correction_witness:
  "node_at (m_root model_AB) [0] = Some (InternalNode 1 0)
   \<and> \<not> hasItems live_AB 1
   \<and> 0 < getItemsCount live_A_grown 1
   \<and> 0 \<le> indexOf live_A_grown nullptr 1 0
   \<and> model_hasChildren live_AB model_AB (ModelIndex 0 0 [0]) =
     Inr (False, model_AB\<lparr>m_root := cache_AB_probed\<rparr>)
   \<and> syncNodeList live_A_grown [] cache_AB_probed nullptr =
     Inr ([RowsInserted (ModelIndex 0 0 [0]) 0 1],
          Node nullptr 0
            [Node 1 0 [InternalNode 5 0, InternalNode 6 1] True False True, InternalNode 2 1]
            False False True)
   \<and> fst (isInitialized live_A_grown (Node 1 0 [] True False False))
   \<and> \<not> fst (isInitialized live_AB (Node 1 0 [] True False False))"
proof -
  let ?st = "\<lparr>nodes = children cache_AB_probed, srcStart = 0, srcCur = 0, destStart = 0,
              emitted = []\<rparr>"
  have at: "node_at (m_root model_AB) [0] = Some (InternalNode 1 0)"
    by (simp add: model_AB_def cache_AB_def)
  have h1: "children (InternalNode 1 0) = []" "\<not> childInitialized (InternalNode 1 0)"
    "\<not> hasItems live_AB (item (InternalNode 1 0))"
    by (simp_all add: InternalNode_def live_AB_def source_adapter_def top_level_def nullptr_def)
  have upd: "update_at (\<lambda>n. set_hasChildren False (set_hasChildrenQueryed True n)) [0]
               (m_root model_AB) = cache_AB_probed"
    by (simp add: model_AB_def cache_AB_def cache_AB_probed_def InternalNode_def
        set_hasChildren_def set_hasChildrenQueryed_def set_children_def)
  have h2: "srcCur ?st < length (nodes ?st)"
    "nodes ?st ! srcCur ?st = Node 1 0 [] True False False"
    "0 \<le> indexOf live_A_grown nullptr 1 (destStart ?st)"
    "0 < getItemsCount live_A_grown 1"
    by (simp_all add: cache_AB_probed_def live_A_grown_def source_adapter_def nullptr_def)
  note inst = presence_correction [where m = model_AB and ptr = "[0]" and ?n0.0 = "InternalNode 1 0"
      and ?a0.0 = live_AB and r = 0 and c = 0 and st = ?st and it = 1 and ix = 0
      and a = live_A_grown and parent = nullptr and index = InvalidIndex and p = "[]"
      and n = "Node 1 0 [] True False False"]
  have "model_hasChildren live_AB model_AB (ModelIndex 0 0 [0]) =
     Inr (False, model_AB\<lparr>m_root :=
       update_at (\<lambda>n. set_hasChildren False (set_hasChildrenQueryed True n)) [0]
         (m_root model_AB)\<rparr>)"
    using inst [THEN conjunct1, rule_format, OF at h1, THEN conjunct1] .
  then have probe: "model_hasChildren live_AB model_AB (ModelIndex 0 0 [0]) =
     Inr (False, model_AB\<lparr>m_root := cache_AB_probed\<rparr>)"
    by (simp only: upd)
  have "fst (isInitialized live_A_grown (Node 1 0 [] True False False)) =
        (childInitialized (Node 1 0 [] True False False) \<or>
         hasChildrenQueryed (Node 1 0 [] True False False) \<and>
         hasChildren (Node 1 0 [] True False False) \<noteq>
           (0 < getItemsCount live_A_grown (item (Node 1 0 [] True False False))))"
    using inst [THEN conjunct2, THEN conjunct2, THEN conjunct1] .
  then have forced: "fst (isInitialized live_A_grown (Node 1 0 [] True False False))"
    by (simp add: live_A_grown_def source_adapter_def)
  have reached: "\<exists>st1 k.
      insert_skipped live_A_grown InvalidIndex nullptr False
        (indexOf live_A_grown nullptr 1 (destStart ?st))
        (remove_skipped InvalidIndex False ?st) = Inr st1
      \<and> nodes st1 ! srcCur st1 = Node 1 k [] True False False
      \<and> sync_loop live_A_grown InvalidIndex [] nullptr ?st =
        sync_loop live_A_grown InvalidIndex [] nullptr
         (st1\<lparr>nodes := (nodes st1)
                  [srcCur st1 :=
                     Node 1 k
                       (map (\<lambda>j. InternalNode (getItem live_A_grown 1 (int j)) j)
                          [0 ..< nat (getItemsCount live_A_grown 1)])
                       True False True],
               srcStart := srcCur st1 + 1,
               srcCur := srcCur st1 + 1,
               emitted := emitted st1 @
                 [RowsInserted (ModelIndex k 0 ([] @ [srcCur st1])) 0
                    (nat (getItemsCount live_A_grown 1) - 1)]\<rparr>)"
    using inst [THEN conjunct2, THEN conjunct1, rule_format, OF h2] .
  have sync: "syncNodeList live_A_grown [] cache_AB_probed nullptr =
     Inr ([RowsInserted (ModelIndex 0 0 [0]) 0 1],
          Node nullptr 0
            [Node 1 0 [InternalNode 5 0, InternalNode 6 1] True False True, InternalNode 2 1]
            False False True)"
    by code_simp
  have other: "\<not> fst (isInitialized live_AB (Node 1 0 [] True False False))"
    by (simp add: isInitialized_def live_AB_def source_adapter_def top_level_def nullptr_def)
  from at h1 h2 probe sync forced other show ?thesis
    by (simp add: InternalNode_def)
qed

section \<open>The presence query\<close>

text \<open>
  C9, as stated, for the root: the root is loaded and has no children, so the answer should be
  "children non-empty", that is false; \<^verbatim>\<open>hasChildren\<close> answers true for the invalid index
  (line 272).
\<close>

theorem hasChildren_root_counterexample:
  "childInitialized (m_root model_empty)
   \<and> model_hasChildren live_empty model_empty InvalidIndex = Inr (True, model_empty)
   \<and> model_hasChildren live_empty model_empty InvalidIndex \<noteq>
       Inr (children (m_root model_empty) \<noteq> [], model_empty)"
  by (simp add: model_hasChildren_def model_empty_def)

text \<open>
  C9, amended. For a node addressed by a valid index: if the node is loaded,
  \<^verbatim>\<open>hasChildren\<close> answers whether it has children and changes nothing; otherwise it answers
  the probe \<^verbatim>\<open>hasItems\<close> and sets \<^verbatim>\<open>hasChildrenQueryed\<close> and \<^verbatim>\<open>hasChildren\<close> of that
  node, whose children and \<^verbatim>\<open>childInitialized\<close> stay as they are. For the root (the invalid
  index) it answers true and changes nothing.
\<close>

theorem hasChildren_valid_index:
  "(getNode m (ModelIndex r c ptr) = Some n \<longrightarrow> childInitialized n \<longrightarrow>
      model_hasChildren a m (ModelIndex r c ptr) = Inr (children n \<noteq> [], m))
   \<and> (getNode m (ModelIndex r c ptr) = Some n \<longrightarrow> \<not> childInitialized n \<longrightarrow>
      model_hasChildren a m (ModelIndex r c ptr) =
        Inr (hasItems a (item n),
             m\<lparr>m_root := update_at
                  (\<lambda>n'. set_hasChildren (hasItems a (item n)) (set_hasChildrenQueryed True n'))
                  ptr (m_root m)\<rparr>)
      \<and> node_at (update_at
                  (\<lambda>n'. set_hasChildren (hasItems a (item n)) (set_hasChildrenQueryed True n'))
                  ptr (m_root m)) ptr =
          Some (Node (item n) (parentIndex n) (children n) True (hasItems a (item n)) False))
   \<and> model_hasChildren a m InvalidIndex = Inr (True, m)"
proof (intro conjI impI)
  assume "getNode m (ModelIndex r c ptr) = Some n" and "childInitialized n"
  then show "model_hasChildren a m (ModelIndex r c ptr) = Inr (children n \<noteq> [], m)"
    by (simp add: model_hasChildren_def)
next
  assume at: "getNode m (ModelIndex r c ptr) = Some n" and ci: "\<not> childInitialized n"
  then show "model_hasChildren a m (ModelIndex r c ptr) =
        Inr (hasItems a (item n),
             m\<lparr>m_root := update_at
                  (\<lambda>n'. set_hasChildren (hasItems a (item n)) (set_hasChildrenQueryed True n'))
                  ptr (m_root m)\<rparr>)"
    by (simp add: model_hasChildren_def Let_def)
  from at have "node_at (m_root m) ptr = Some n"
    by (simp add: getNode_def)
  from node_at_update_at [OF this] ci
  show "node_at (update_at
                  (\<lambda>n'. set_hasChildren (hasItems a (item n)) (set_hasChildrenQueryed True n'))
                  ptr (m_root m)) ptr =
          Some (Node (item n) (parentIndex n) (children n) True (hasItems a (item n)) False)"
    by (simp add: set_hasChildren_def set_hasChildrenQueryed_def)
next
  show "model_hasChildren a m InvalidIndex = Inr (True, m)"
    by (simp add: model_hasChildren_def)
qed

text \<open>A loaded node, an unloaded node and the root, asked while A has children in the source.\<close>

theorem hasChildren_valid_index_witness:
  "getNode model_loaded (ModelIndex 0 0 [0]) = Some (Node 1 0 [InternalNode 5 0] False False True)
   \<and> model_hasChildren live_A_grown model_loaded (ModelIndex 0 0 [0]) = Inr (True, model_loaded)
   \<and> getNode model_AB (ModelIndex 0 0 [0]) = Some (InternalNode 1 0)
   \<and> model_hasChildren live_A_grown model_AB (ModelIndex 0 0 [0]) =
       Inr (True, model_AB\<lparr>m_root :=
              Node nullptr 0 [Node 1 0 [] True True False, InternalNode 2 1] False False True\<rparr>)
   \<and> model_hasChildren live_A_grown model_AB InvalidIndex = Inr (True, model_AB)"
proof -
  have at1: "getNode model_loaded (ModelIndex 0 0 [0]) =
             Some (Node 1 0 [InternalNode 5 0] False False True)"
    by (simp add: getNode_def model_loaded_def)
  have ci1: "childInitialized (Node 1 0 [InternalNode 5 0] False False True)"
    by simp
  have at2: "getNode model_AB (ModelIndex 0 0 [0]) = Some (InternalNode 1 0)"
    by (simp add: getNode_def model_AB_def cache_AB_def)
  have ci2: "\<not> childInitialized (InternalNode 1 0)"
    by (simp add: InternalNode_def)
  have r1: "model_hasChildren live_A_grown model_loaded (ModelIndex 0 0 [0]) =
            Inr (children (Node 1 0 [InternalNode 5 0] False False True) \<noteq> [], model_loaded)"
    using hasChildren_valid_index [where a = live_A_grown, THEN conjunct1, rule_format, OF at1 ci1] .
  have r2: "model_hasChildren live_A_grown model_AB (ModelIndex 0 0 [0]) =
        Inr (hasItems live_A_grown (item (InternalNode 1 0)),
             model_AB\<lparr>m_root := update_at
                  (\<lambda>n'. set_hasChildren (hasItems live_A_grown (item (InternalNode 1 0)))
                           (set_hasChildrenQueryed True n'))
                  [0] (m_root model_AB)\<rparr>)"
    using hasChildren_valid_index [where a = live_A_grown, THEN conjunct2, THEN conjunct1,
        rule_format, OF at2 ci2, THEN conjunct1] .
  have r3: "model_hasChildren live_A_grown model_AB InvalidIndex = Inr (True, model_AB)"
    using hasChildren_valid_index [where a = live_A_grown and m = model_AB,
        THEN conjunct2, THEN conjunct2] .
  have has: "hasItems live_A_grown (item (InternalNode 1 0))"
    by (simp add: live_A_grown_def source_adapter_def InternalNode_def nullptr_def)
  have upd: "update_at (\<lambda>n'. set_hasChildren True (set_hasChildrenQueryed True n')) [0]
               (m_root model_AB) =
             Node nullptr 0 [Node 1 0 [] True True False, InternalNode 2 1] False False True"
    by (simp add: model_AB_def cache_AB_def InternalNode_def
        set_hasChildren_def set_hasChildrenQueryed_def set_children_def)
  from r2 have r2': "model_hasChildren live_A_grown model_AB (ModelIndex 0 0 [0]) =
       Inr (True, model_AB\<lparr>m_root :=
              Node nullptr 0 [Node 1 0 [] True True False, InternalNode 2 1] False False True\<rparr>)"
    by (simp only: has upd)
  from at1 at2 r1 r2' r3 show ?thesis
    by simp
qed

section \<open>The swap of two items\<close>

text \<open>The equations that evaluate a reconciliation on a source given by its children.\<close>

lemmas sync_unfold = syncNodeList.simps sync_loop.simps remove_skipped_def insert_skipped_def
  emplace_new_def insertedChildren_def eraseChildren_def isInitialized_def getIndex_def Let_def
  set_parentIndex_def set_children_def set_childInitialized_def InternalNode_def
  source_adapter_def

text \<open>
  C4, as stated: on the cache [A, B] and the live order [B, A] the code first inserts a new node
  for B at row 0 and then removes the old node of B at row 2; A is never removed.
\<close>

theorem swap_events_counterexample:
  "syncNodeList live_BA [] cache_AB_loaded nullptr =
     Inr ([RowsInserted InvalidIndex 0 0, RowsRemoved InvalidIndex 2 2],
          Node nullptr 0 [InternalNode 2 0, Node 1 1 [] False False True] False False True)
   \<and> [RowsInserted InvalidIndex 0 0, RowsRemoved InvalidIndex 2 2] \<noteq> scenario_swap_events"
  by (simp add: scenario_swap_events_def) code_simp

text \<open>
  C4, amended. With the cache [A, B], A loaded and without children in the cache and in the
  source, and the live order [B, A], the reconciliation raises exactly two row signals: the
  insertion of row 0 (a new node for B in front of A), then the removal of row 2 (the old node
  of B). No move is reported, and the cache ends as [B, A].
\<close>

theorem swap_is_insert_then_remove:
  assumes "A \<noteq> B" and "live nullptr = [B, A]" and "live A = []" and "item nB = B"
  shows "syncNodeList (source_adapter live parentOf) []
           (Node nullptr ix [Node A ia [] qa ha True, nB] q h ci) nullptr =
         Inr ([RowsInserted InvalidIndex 0 0, RowsRemoved InvalidIndex 2 2],
              Node nullptr ix [InternalNode B 0, Node A 1 [] qa ha True] q h True)"
  using assms by (simp add: sync_unfold)

text \<open>The swap with A = 1 and B = 2.\<close>

theorem swap_is_insert_then_remove_witness:
  "(1::nat) \<noteq> 2 \<and> top_level [2, 1] nullptr = [2, 1] \<and> top_level [2, 1] 1 = []
   \<and> item (InternalNode 2 1) = 2
   \<and> syncNodeList live_BA [] cache_AB_loaded nullptr =
       Inr ([RowsInserted InvalidIndex 0 0, RowsRemoved InvalidIndex 2 2],
            Node nullptr 0 [InternalNode 2 0, Node 1 1 [] False False True] False False True)"
proof -
  have h1: "(1::nat) \<noteq> 2" by simp
  have h2: "top_level [2, 1] nullptr = [2, 1]" by (simp add: top_level_def)
  have h3: "top_level [2, 1] 1 = []" by (simp add: top_level_def nullptr_def)
  have h4: "item (InternalNode 2 1) = 2" by (simp add: InternalNode_def)
  from swap_is_insert_then_remove [OF h1 h2 h3 h4, where parentOf = "\<lambda>x. nullptr" and ix = 0
      and ia = 0 and qa = False and ha = False and q = False and h = False and ci = True]
    h1 h2 h3 h4
  show ?thesis by (simp add: live_BA_def cache_AB_loaded_def)
qed

section \<open>Item lookup\<close>

text \<open>The equations that evaluate an item lookup on a source given by its children.\<close>

lemmas getItemNode_unfold = getItemNode.simps find_child_def source_adapter_def nullptr_def
  loadChildren_def InternalNode_def Let_def

text \<open>
  C8 (cyclic ancestry). The lookup of an item with a cyclic ancestor chain should answer "not
  found". It does for item 1, which is its own parent. For item 2, whose parent 1 is its own
  parent, the recursive call returns the null pointer, \<^verbatim>\<open>indexOf\<close> finds 2 below 1, and line
  247 calls \<^verbatim>\<open>loadChildren\<close> through the null pointer.
\<close>

theorem cyclic_ancestor_null_dereference:
  "getItemParent cyclic_source 1 = 1
   \<and> getItemParent cyclic_source 2 = 1
   \<and> indexOf cyclic_source 1 2 0 = 0
   \<and> getItemNode cyclic_source (m_root model_empty) 1 = Some (Inr (None, m_root model_empty))
   \<and> getItemNode cyclic_source (m_root model_empty) 2 = Some (Inl NullDereference)
   \<and> getItemIndex cyclic_source (m_root model_empty) 2 = Some (Inl NullDereference)"
  by (simp add: getItemNode_unfold getItemIndex_def cyclic_source_def model_empty_def)

text \<open>
  C10 (safety of the item lookup). The position \<^verbatim>\<open>indexOf\<close> returns should lie inside the
  children of the parent node. For item 2 the parent node is the root, which is loaded with one
  child; \<^verbatim>\<open>loadChildren\<close> does nothing, \<^verbatim>\<open>indexOf\<close> returns 1, and line 248 reads
  \<^verbatim>\<open>children[1]\<close> of a vector of length 1.
\<close>

theorem stale_parent_out_of_range:
  "getItemNode grown_source stale_root 7 = Some (Inr (Some [], stale_root))
   \<and> indexOf grown_source 7 2 0 = 1
   \<and> length (children (loadChildren grown_source stale_root)) = 1
   \<and> getItemNode grown_source stale_root 2 = Some (Inl OutOfRange)"
  by (simp add: getItemNode_unfold grown_source_def stale_root_def)

end
